theory Spec2Isabelle
  imports Complex_Main
begin

section \<open>The BB84 simulation of final1.py\<close>

text \<open>
  The module has one function, \<open>run_qkd_protocol\<close>, and three module constants. The
  function draws from numpy's process-wide generator; here the generator is an explicit
  state of an arbitrary type \<open>'g\<close>, threaded through every call in the order of the source.
  The three constants are the fields of a configuration record, so that the properties
  hold for the module's values and for any others. The lines after the function, which
  pick the flag at random, call the function once and print the justification, are not
  modelled.

  Numbers: the arrays hold Python/numpy integers, modelled as \<open>int\<close> (the only arithmetic
  on them is \<open>1 - b\<close>). The floats of the source are modelled as \<open>rat\<close>: every double is a
  rational, \<open>0.5\<close> is exactly \<open>1/2\<close>, and the quotient \<open>errors / CHECK_SIZE\<close> is taken
  exactly. For the module's \<open>NUM_PHOTONS = 1000\<close> the check sample has at most 250
  elements, so a quotient different from \<open>11/100\<close> is at least \<open>1/25000\<close> away from it and
  the comparison of the rounded doubles \<open>qber > 0.11\<close> decides as the exact one does.
\<close>

subsection \<open>Configuration\<close>

record config =
  NUM_PHOTONS :: int
  EAVESDROP_PROB :: rat
  SECURITY_THRESHOLD :: rat

definition module_config :: config where
  "module_config =
     \<lparr>NUM_PHOTONS = 1000, EAVESDROP_PROB = 1 / 2, SECURITY_THRESHOLD = 11 / 100\<rparr>"

subsection \<open>The random source\<close>

text \<open>
  The three kinds of call the function makes on \<open>np.random\<close>: \<open>randint(0, 2)\<close>, one
  \<open>rand()\<close> float, and \<open>choice(n, k, replace=False)\<close>. Each takes the generator state and
  returns the value drawn with the next state. An array draw of size \<open>n\<close>
  (\<open>randint(0, 2, n)\<close>, \<open>rand(n)\<close>) is \<open>n\<close> element draws in sequence, so an array has
  the length asked for by construction.
\<close>

record 'g random_source =
  randint :: "'g \<Rightarrow> int \<times> 'g"
  rand :: "'g \<Rightarrow> rat \<times> 'g"
  choice :: "nat \<Rightarrow> nat \<Rightarrow> 'g \<Rightarrow> nat list \<times> 'g"

fun draws :: "('g \<Rightarrow> 'a \<times> 'g) \<Rightarrow> nat \<Rightarrow> 'g \<Rightarrow> 'a list \<times> 'g" where
  "draws d 0 g = ([], g)"
| "draws d (Suc n) g =
     (case d g of (x, g1) \<Rightarrow> (case draws d n g1 of (xs, g2) \<Rightarrow> (x # xs, g2)))"

text \<open>The value of the \<open>k\<close>-th scalar \<open>randint(0, 2)\<close> call made from state \<open>g\<close> on.\<close>

definition draw_at :: "'g random_source \<Rightarrow> 'g \<Rightarrow> nat \<Rightarrow> int" where
  "draw_at src g k = fst (randint src (((\<lambda>s. snd (randint src s)) ^^ k) g))"

subsection \<open>Array operations\<close>

text \<open>\<open>xs[mask]\<close>: the elements of \<open>xs\<close> where the boolean mask is true, in order.\<close>

definition mask_select :: "bool list \<Rightarrow> 'a list \<Rightarrow> 'a list" where
  "mask_select msk xs = map snd (filter fst (zip msk xs))"

text \<open>\<open>xs[mask] = 1 - xs[mask]\<close>.\<close>

definition flip_masked :: "bool list \<Rightarrow> int list \<Rightarrow> int list" where
  "flip_masked msk xs = map (\<lambda>(m, x). if m then 1 - x else x) (zip msk xs)"

datatype error = ValueError | IndexError

text \<open>\<open>xs[indices]\<close> with an integer index array: numpy raises IndexError out of range.\<close>

definition index_select :: "'a list \<Rightarrow> nat list \<Rightarrow> error + 'a list" where
  "index_select xs indices =
     (if \<forall>i \<in> set indices. i < length xs then Inr (map (\<lambda>i. xs ! i) indices)
      else Inl IndexError)"

subsection \<open>Text\<close>

text \<open>
  A justification is a sequence of pieces: literal text, and the field \<open>{x:.2f}\<close> of an
  f-string, which carries the number it renders. The two symbols that open the
  messages are the bytes of their UTF-8 encoding.
\<close>

datatype piece = Lit string | Fixed2 rat

fun digits :: "nat \<Rightarrow> string" where
  "digits n =
     (if n < 10 then [char_of (48 + n)] else digits (n div 10) @ [char_of (48 + n mod 10)])"

declare digits.simps [simp del]

text \<open>\<open>str\<close> of an integer.\<close>

definition str :: "int \<Rightarrow> string" where
  "str i = (if i < 0 then CHR ''-'' # digits (nat (- i)) else digits (nat i))"

definition siren :: string where
  "siren = [CHR 0xF0, CHR 0x9F, CHR 0x9A, CHR 0xA8]"

definition check_mark :: string where
  "check_mark = [CHR 0xE2, CHR 0x9C, CHR 0x85]"

subsection \<open>The stages of \<open>run_qkd_protocol\<close>\<close>

text \<open>The local variables of a run up to the sifting stage, with the generator state.\<close>

record 'g locals =
  alice_bits :: "int list"
  alice_bases :: "int list"
  bob_bases :: "int list"
  eve_bases :: "int list option"
  intercept_mask :: "bool list option"
  received_bits :: "int list"
  bob_bits :: "int list"
  alice_sifted_key :: "int list"
  bob_sifted_key :: "int list"
  rng :: 'g

definition start :: "'g \<Rightarrow> 'g locals" where
  "start g =
     \<lparr>alice_bits = [], alice_bases = [], bob_bases = [], eve_bases = None,
      intercept_mask = None, received_bits = [], bob_bits = [],
      alice_sifted_key = [], bob_sifted_key = [], rng = g\<rparr>"

text \<open>1. Preparation: three array draws.\<close>

definition preparation :: "'g random_source \<Rightarrow> nat \<Rightarrow> 'g locals \<Rightarrow> 'g locals" where
  "preparation src N s =
     (case draws (randint src) N (rng s) of (a_bits, g1) \<Rightarrow>
      case draws (randint src) N g1 of (a_bases, g2) \<Rightarrow>
      case draws (randint src) N g2 of (b_bases, g3) \<Rightarrow>
        s\<lparr>alice_bits := a_bits, alice_bases := a_bases, bob_bases := b_bases, rng := g3\<rparr>)"

text \<open>2. Transmission: a copy of Alice's bits, flipped where Eve introduced an error.\<close>

definition transmission ::
  "config \<Rightarrow> 'g random_source \<Rightarrow> bool \<Rightarrow> nat \<Rightarrow> 'g locals \<Rightarrow> 'g locals" where
  "transmission cfg src eavesdropper_present N s =
     (if eavesdropper_present then
        (case draws (randint src) N (rng s) of (e_bases, g1) \<Rightarrow>
         case draws (rand src) N g1 of (u, g2) \<Rightarrow>
           let i_mask = map (\<lambda>x. x < EAVESDROP_PROB cfg) u;
               eve_error_mask =
                 map (\<lambda>(m, d). m \<and> d) (zip i_mask
                   (map (\<lambda>(a, e). a \<noteq> e) (zip (alice_bases s) e_bases)))
           in s\<lparr>eve_bases := Some e_bases, intercept_mask := Some i_mask,
                 received_bits := flip_masked eve_error_mask (alice_bits s), rng := g2\<rparr>)
      else s\<lparr>received_bits := alice_bits s\<rparr>)"

text \<open>3. Bob's measurement: the loop \<open>for i in range(N)\<close> over the list of indices.\<close>

fun measure_loop ::
  "'g random_source \<Rightarrow> bool list \<Rightarrow> int list \<Rightarrow> nat list \<Rightarrow> int list \<Rightarrow> 'g \<Rightarrow> int list \<times> 'g"
where
  "measure_loop src match_mask received [] bob g = (bob, g)"
| "measure_loop src match_mask received (i # rest) bob g =
     (if match_mask ! i then
        measure_loop src match_mask received rest (bob[i := received ! i]) g
      else
        (case randint src g of (b, g') \<Rightarrow>
           measure_loop src match_mask received rest (bob[i := b]) g'))"

definition measurement :: "'g random_source \<Rightarrow> nat \<Rightarrow> 'g locals \<Rightarrow> 'g locals" where
  "measurement src N s =
     (let zeros = replicate N 0;
          match_mask = map (\<lambda>(a, b). a = b) (zip (alice_bases s) (bob_bases s))
      in case measure_loop src match_mask (received_bits s) [0..<N] zeros (rng s) of
           (b_bits, g') \<Rightarrow> s\<lparr>bob_bits := b_bits, rng := g'\<rparr>)"

text \<open>4. Basis sifting.\<close>

definition sifting :: "'g locals \<Rightarrow> 'g locals" where
  "sifting s =
     (let sift_mask = map (\<lambda>(a, b). a = b) (zip (alice_bases s) (bob_bases s))
      in s\<lparr>alice_sifted_key := mask_select sift_mask (alice_bits s),
            bob_sifted_key := mask_select sift_mask (bob_bits s)\<rparr>)"

text \<open>
  The locals after each stage of a run started in generator state \<open>g\<close>; \<open>sifted\<close> is
  what the function holds when it reaches \<open>if sifted_length == 0\<close>.
\<close>

definition prepared :: "'g random_source \<Rightarrow> nat \<Rightarrow> 'g \<Rightarrow> 'g locals" where
  "prepared src N g = preparation src N (start g)"

definition transmitted ::
  "config \<Rightarrow> 'g random_source \<Rightarrow> bool \<Rightarrow> nat \<Rightarrow> 'g \<Rightarrow> 'g locals" where
  "transmitted cfg src eavesdropper_present N g =
     transmission cfg src eavesdropper_present N (prepared src N g)"

definition measured ::
  "config \<Rightarrow> 'g random_source \<Rightarrow> bool \<Rightarrow> nat \<Rightarrow> 'g \<Rightarrow> 'g locals" where
  "measured cfg src eavesdropper_present N g =
     measurement src N (transmitted cfg src eavesdropper_present N g)"

definition sifted ::
  "config \<Rightarrow> 'g random_source \<Rightarrow> bool \<Rightarrow> nat \<Rightarrow> 'g \<Rightarrow> 'g locals" where
  "sifted cfg src eavesdropper_present N g =
     sifting (measured cfg src eavesdropper_present N g)"

text \<open>5. Security check.\<close>

record check =
  CHECK_SIZE :: nat
  check_indices :: "nat list"
  errors :: nat
  qber :: rat
  remaining_key :: "int list"

definition security_check :: "'g random_source \<Rightarrow> 'g locals \<Rightarrow> error + (check \<times> 'g)" where
  "security_check src s =
     (let sifted_length = length (alice_sifted_key s);
          k = sifted_length div 4
      in case choice src sifted_length k (rng s) of (indices, g') \<Rightarrow>
        (case index_select (alice_sifted_key s) indices of
           Inl e \<Rightarrow> Inl e
         | Inr alice_check \<Rightarrow>
            (case index_select (bob_sifted_key s) indices of
               Inl e \<Rightarrow> Inl e
             | Inr bob_check \<Rightarrow>
                (let errs = length (filter (\<lambda>(a, b). a \<noteq> b) (zip alice_check bob_check));
                     q = (if k > 0 then of_nat errs / of_nat k else 0);
                     rest = mask_select (map (\<lambda>i. i \<notin> set indices) [0..<sifted_length])
                              (alice_sifted_key s)
                 in Inr (\<lparr>CHECK_SIZE = k, check_indices = indices, errors = errs,
                           qber = q, remaining_key = rest\<rparr>, g')))))"

text \<open>6. Final decision and justification.\<close>

definition intrusion_text :: "rat \<Rightarrow> piece list" where
  "intrusion_text q =
     [Lit (siren @ '' Eavesdropper detected (QBER: ''), Fixed2 (q * 100),
      Lit (''%). The quantum disturbance proves intrusion, so the key is '' @
           ''discarded and the conversation is cut.'')]"

definition key_str :: "int list \<Rightarrow> string" where
  "key_str key = concat (map str (take 10 key)) @ ''...''"

definition secure_text :: "rat \<Rightarrow> int list \<Rightarrow> piece list" where
  "secure_text q key =
     [Lit (check_mark @ '' Key is SECURE (QBER: ''), Fixed2 (q * 100),
      Lit (''%). The low error rate confirms no intrusion, and the remaining '' @
           ''key is successfully generated (''),
      Lit (key_str key), Lit '').'']"

definition decision :: "config \<Rightarrow> check \<Rightarrow> int list option \<times> piece list" where
  "decision cfg c =
     (if qber c > SECURITY_THRESHOLD cfg then (None, intrusion_text (qber c))
      else (Some (remaining_key c), secure_text (qber c) (remaining_key c)))"

definition sifting_failure :: "piece list" where
  "sifting_failure = [Lit ''Key failure due to sifting.'']"

text \<open>
  The whole function. With a negative \<open>NUM_PHOTONS\<close> the first array draw raises
  ValueError (numpy refuses a negative dimension). numpy also refuses an array it
  cannot allocate (\<open>2 ^ 62\<close> elements, say); the arrays of the model are lists of
  any length, so that limit is not modelled.
\<close>

definition run_qkd_protocol ::
  "config \<Rightarrow> 'g random_source \<Rightarrow> bool \<Rightarrow> 'g \<Rightarrow> error + ((int list option \<times> piece list) \<times> 'g)"
where
  "run_qkd_protocol cfg src eavesdropper_present g =
     (if NUM_PHOTONS cfg < 0 then Inl ValueError
      else
        let N = nat (NUM_PHOTONS cfg);
            s = sifted cfg src eavesdropper_present N g;
            sifted_length = length (alice_sifted_key s)
        in if sifted_length = 0 then Inr ((None, sifting_failure), rng s)
           else (case security_check src s of Inl e \<Rightarrow> Inl e
                 | Inr (c, g') \<Rightarrow> Inr (decision cfg c, g')))"

subsection \<open>A scripted random source\<close>

text \<open>
  A deterministic source for examples: the state lists the values the coming
  \<open>randint\<close>, \<open>rand\<close> and \<open>choice\<close> calls return.
\<close>

type_synonym script = "int list \<times> rat list \<times> nat list list"

definition scripted :: "script random_source" where
  "scripted =
     \<lparr>randint = (\<lambda>(ints, floats, picks).
        case ints of [] \<Rightarrow> (0, (ints, floats, picks))
        | i # rest \<Rightarrow> (i, (rest, floats, picks))),
      rand = (\<lambda>(ints, floats, picks).
        case floats of [] \<Rightarrow> (0, (ints, floats, picks))
        | u # rest \<Rightarrow> (u, (ints, rest, picks))),
      choice = (\<lambda>n k (ints, floats, picks).
        case picks of [] \<Rightarrow> ([0..<k], (ints, floats, picks))
        | p # rest \<Rightarrow> (p, (ints, floats, rest)))\<rparr>"

definition small_config :: config where
  "small_config = \<lparr>NUM_PHOTONS = 8, EAVESDROP_PROB = 1 / 2, SECURITY_THRESHOLD = 11 / 100\<rparr>"

text \<open>
  A script for eight photons with an eavesdropper: Alice's bits, Alice's bases, Bob's
  bases, Eve's bases, then Bob's three draws at the positions 1, 4 and 7 where the
  bases differ; the eight floats of the interception mask; the check sample.
\<close>

definition example_script :: script where
  "example_script =
     ([1, 0, 1, 1, 0, 0, 1, 0,  0, 1, 0, 1, 0, 1, 0, 1,  0, 0, 0, 1, 1, 1, 0, 0,
       1, 1, 0, 1, 0, 1, 1, 0,  1, 0, 1],
      [1 / 4, 3 / 4, 1 / 4, 3 / 4, 1 / 4, 1 / 4, 3 / 4, 1 / 4],
      [[4]])"


subsection \<open>Recording the draws of a run\<close>

text \<open>
  To speak of the sequence of random draws of a run, a source is wrapped so that every
  call appends the value it returns to a log kept beside the generator state. The draw
  sequence of a run is the log of the same run on the wrapped source, started with an
  empty log; \<open>outcome\<close> is what the caller receives, the pair of key and justification
  or the exception.
\<close>

datatype draw = Int_draw int | Float_draw rat | Choice_draw "nat list"




text \<open>The locals of a run on the wrapped source: those of the plain run, beside a log.\<close>

definition with_log :: "draw list \<Rightarrow> 'g locals \<Rightarrow> ('g \<times> draw list) locals" where
  "with_log l s =
     \<lparr>alice_bits = alice_bits s, alice_bases = alice_bases s, bob_bases = bob_bases s,
      eve_bases = eve_bases s, intercept_mask = intercept_mask s,
      received_bits = received_bits s, bob_bits = bob_bits s,
      alice_sifted_key = alice_sifted_key s, bob_sifted_key = bob_sifted_key s,
      rng = (rng s, l)\<rparr>"


section \<open>Properties\<close>

subsection \<open>Array draws, masks and the measurement loop\<close>


lemma length_draws [simp]: "length (fst (draws d n g)) = n"
proof (induction n arbitrary: g)
  case 0
  show ?case by simp
next
  case (Suc n)
  obtain x g1 where d: "d g = (x, g1)" by (cases "d g")
  obtain xs g2 where r: "draws d n g1 = (xs, g2)" by (cases "draws d n g1")
  from Suc [of g1] r have "length xs = n" by simp
  with d r show ?case by simp
qed

lemma mask_select_nth:
  assumes "length m = length xs"
  shows "mask_select m xs = map (\<lambda>i. xs ! i) (filter (\<lambda>i. m ! i) [0..<length xs])"
proof -
  have "zip m xs = map (\<lambda>i. (m ! i, xs ! i)) [0..<length xs]"
    using assms by (intro nth_equalityI) simp_all
  then show ?thesis
    by (simp add: mask_select_def filter_map o_def)
qed

lemma length_mask_select: "length (mask_select m xs) \<le> length xs"
  unfolding mask_select_def
  by (metis length_filter_le length_map length_zip min.cobounded2 order_trans)

lemma mask_select_cong:
  assumes "length xs = length m" "length ys = length m"
    and "\<And>i. i < length m \<Longrightarrow> m ! i \<Longrightarrow> xs ! i = ys ! i"
  shows "mask_select m xs = mask_select m ys"
  using assms by (simp add: mask_select_nth cong: map_cong)

lemma flip_masked_nth:
  "length m = length xs \<Longrightarrow> i < length xs \<Longrightarrow>
   flip_masked m xs ! i = (if m ! i then 1 - xs ! i else xs ! i)"
  by (simp add: flip_masked_def)

lemma length_flip_masked: "length m = length xs \<Longrightarrow> length (flip_masked m xs) = length xs"
  by (simp add: flip_masked_def)

lemma draw_at_0: "draw_at src g 0 = fst (randint src g)"
  by (simp add: draw_at_def)

lemma draw_at_Suc: "draw_at src g (Suc k) = draw_at src (snd (randint src g)) k"
  using funpow_swap1 [of "\<lambda>s. snd (randint src s)" k g] by (simp add: draw_at_def)

lemma length_measure_loop:
  "length (fst (measure_loop src mm rb idx bob g)) = length bob"
  by (induction idx arbitrary: bob g) (simp_all split: prod.splits)

lemma measure_loop_untouched:
  "j \<notin> set idx \<Longrightarrow> fst (measure_loop src mm rb idx bob g) ! j = bob ! j"
  by (induction idx arbitrary: bob g) (auto split: prod.splits)

lemma measure_loop_nth:
  assumes "distinct idx" "p < length idx" "idx ! p < length bob"
  shows "fst (measure_loop src mm rb idx bob g) ! (idx ! p) =
         (if mm ! (idx ! p) then rb ! (idx ! p)
          else draw_at src g (length (filter (\<lambda>i. \<not> mm ! i) (take p idx))))"
  using assms
proof (induction idx arbitrary: bob g p)
  case Nil
  then show ?case by simp
next
  case (Cons i rest)
  obtain b g' where d: "randint src g = (b, g')" by (cases "randint src g")
  show ?case
  proof (cases p)
    case 0
    with Cons.prems d show ?thesis
      by (simp add: measure_loop_untouched draw_at_0)
  next
    case (Suc q)
    with Cons.prems have q: "distinct rest" "q < length rest" by simp_all
    show ?thesis
    proof (cases "mm ! i")
      case True
      with Cons.IH [OF q, of "bob[i := rb ! i]" g] Cons.prems Suc show ?thesis
        by simp
    next
      case False
      with Cons.IH [OF q, of "bob[i := b]" g'] Cons.prems Suc d show ?thesis
        by (simp add: draw_at_Suc)
    qed
  qed
qed

lemma measure_loop_rng:
  "snd (measure_loop src mm rb idx bob g) =
   ((\<lambda>s. snd (randint src s)) ^^ length (filter (\<lambda>i. \<not> mm ! i) idx)) g"
proof (induction idx arbitrary: bob g)
  case Nil
  show ?case by simp
next
  case (Cons i rest)
  obtain b g' where d: "randint src g = (b, g')" by (cases "randint src g")
  let ?f = "\<lambda>s. snd (randint src s)"
  have "(?f ^^ n) (?f g) = ?f ((?f ^^ n) g)" for n
    by (rule funpow_swap1 [symmetric])
  with Cons [of _ g'] Cons [of _ g] d show ?case by simp
qed

lemma prepared_lengths:
  "length (alice_bits (prepared src N g)) = N"
  "length (alice_bases (prepared src N g)) = N"
  "length (bob_bases (prepared src N g)) = N"
  unfolding prepared_def preparation_def
  by (simp_all split: prod.splits) (metis fst_conv length_draws)+

lemma transmitted_keeps:
  "alice_bits (transmitted cfg src e N g) = alice_bits (prepared src N g)"
  "alice_bases (transmitted cfg src e N g) = alice_bases (prepared src N g)"
  "bob_bases (transmitted cfg src e N g) = bob_bases (prepared src N g)"
  unfolding transmitted_def transmission_def
  by (simp_all split: prod.splits add: Let_def)

lemma measured_keeps:
  "alice_bits (measured cfg src e N g) = alice_bits (prepared src N g)"
  "alice_bases (measured cfg src e N g) = alice_bases (prepared src N g)"
  "bob_bases (measured cfg src e N g) = bob_bases (prepared src N g)"
  "received_bits (measured cfg src e N g) = received_bits (transmitted cfg src e N g)"
  "eve_bases (measured cfg src e N g) = eve_bases (transmitted cfg src e N g)"
  "intercept_mask (measured cfg src e N g) = intercept_mask (transmitted cfg src e N g)"
  unfolding measured_def measurement_def
  by (simp_all split: prod.splits add: Let_def transmitted_keeps)

lemma sifted_keeps:
  "alice_bits (sifted cfg src e N g) = alice_bits (prepared src N g)"
  "alice_bases (sifted cfg src e N g) = alice_bases (prepared src N g)"
  "bob_bases (sifted cfg src e N g) = bob_bases (prepared src N g)"
  "received_bits (sifted cfg src e N g) = received_bits (transmitted cfg src e N g)"
  "eve_bases (sifted cfg src e N g) = eve_bases (transmitted cfg src e N g)"
  "intercept_mask (sifted cfg src e N g) = intercept_mask (transmitted cfg src e N g)"
  "bob_bits (sifted cfg src e N g) = bob_bits (measured cfg src e N g)"
  "rng (sifted cfg src e N g) = rng (measured cfg src e N g)"
  unfolding sifted_def sifting_def
  by (simp_all add: Let_def measured_keeps)

lemma sifted_lengths:
  "length (alice_bits (sifted cfg src e N g)) = N"
  "length (alice_bases (sifted cfg src e N g)) = N"
  "length (bob_bases (sifted cfg src e N g)) = N"
  by (simp_all add: sifted_keeps prepared_lengths)

lemma transmitted_absent:
  "received_bits (transmitted cfg src False N g) = alice_bits (prepared src N g)"
  "eve_bases (transmitted cfg src False N g) = None"
  "intercept_mask (transmitted cfg src False N g) = None"
  "rng (transmitted cfg src False N g) = rng (prepared src N g)"
  unfolding transmitted_def transmission_def
  by (simp_all add: prepared_def preparation_def start_def split: prod.splits)

lemma transmitted_present:
  obtains eb im where
    "eve_bases (transmitted cfg src True N g) = Some eb"
    "intercept_mask (transmitted cfg src True N g) = Some im"
    "length eb = N" "length im = N"
    "received_bits (transmitted cfg src True N g) =
       flip_masked (map (\<lambda>(m, d). m \<and> d) (zip im
          (map (\<lambda>(a, e). a \<noteq> e) (zip (alice_bases (prepared src N g)) eb))))
        (alice_bits (prepared src N g))"
proof -
  obtain eb g1 where a: "draws (randint src) N (rng (prepared src N g)) = (eb, g1)"
    by (cases "draws (randint src) N (rng (prepared src N g))")
  obtain u g2 where b: "draws (rand src) N g1 = (u, g2)"
    by (cases "draws (rand src) N g1")
  have "length eb = N" "length u = N"
    using a b length_draws by (metis fst_conv)+
  with a b that [of eb "map (\<lambda>x. x < EAVESDROP_PROB cfg) u"] show thesis
    by (simp add: transmitted_def transmission_def Let_def)
qed

lemma length_received_bits:
  "length (received_bits (transmitted cfg src e N g)) = N"
proof (cases e)
  case False
  then show ?thesis by (simp add: transmitted_absent prepared_lengths)
next
  case True
  obtain eb im where
    "length eb = N" "length im = N"
    "received_bits (transmitted cfg src True N g) =
       flip_masked (map (\<lambda>(m, d). m \<and> d) (zip im
          (map (\<lambda>(a, e). a \<noteq> e) (zip (alice_bases (prepared src N g)) eb))))
        (alice_bits (prepared src N g))"
    by (rule transmitted_present)
  with True show ?thesis
    by (simp add: length_flip_masked prepared_lengths)
qed

lemma measured_bob_bits:
  "bob_bits (measured cfg src e N g) =
   fst (measure_loop src
     (map (\<lambda>(a, b). a = b) (zip (alice_bases (prepared src N g)) (bob_bases (prepared src N g))))
     (received_bits (transmitted cfg src e N g)) [0..<N] (replicate N 0)
     (rng (transmitted cfg src e N g)))"
  unfolding measured_def measurement_def
  by (simp add: Let_def transmitted_keeps split: prod.splits)

lemma length_bob_bits: "length (bob_bits (measured cfg src e N g)) = N"
  by (simp add: measured_bob_bits length_measure_loop)

lemma sifted_keys:
  "alice_sifted_key (sifted cfg src e N g) =
     mask_select (map (\<lambda>(a, b). a = b)
        (zip (alice_bases (prepared src N g)) (bob_bases (prepared src N g))))
       (alice_bits (prepared src N g))"
  "bob_sifted_key (sifted cfg src e N g) =
     mask_select (map (\<lambda>(a, b). a = b)
        (zip (alice_bases (prepared src N g)) (bob_bases (prepared src N g))))
       (bob_bits (measured cfg src e N g))"
  unfolding sifted_def sifting_def
  by (simp_all add: Let_def measured_keeps)

subsection \<open>The example run\<close>

lemma example_sifted:
  "sifted small_config scripted True 8 example_script =
   \<lparr>alice_bits = [1, 0, 1, 1, 0, 0, 1, 0],
    alice_bases = [0, 1, 0, 1, 0, 1, 0, 1],
    bob_bases = [0, 0, 0, 1, 1, 1, 0, 0],
    eve_bases = Some [1, 1, 0, 1, 0, 1, 1, 0],
    intercept_mask = Some [True, False, True, False, True, True, False, True],
    received_bits = [0, 0, 1, 1, 0, 0, 1, 1],
    bob_bits = [0, 1, 1, 1, 0, 0, 1, 1],
    alice_sifted_key = [1, 1, 1, 0, 1],
    bob_sifted_key = [0, 1, 1, 0, 1],
    rng = ([], [], [[4]])\<rparr>"
  by code_simp

lemma example_check:
  "security_check scripted (sifted small_config scripted True 8 example_script) =
   Inr (\<lparr>CHECK_SIZE = 1, check_indices = [4], errors = 0, qber = 0,
         remaining_key = [1, 1, 1, 0]\<rparr>, ([], [], []))"
  unfolding example_sifted by code_simp

subsection \<open>The empty sifted key\<close>

lemma measure_loop_choice:
  "measure_loop (src\<lparr>choice := c\<rparr>) mm rb idx bob g = measure_loop src mm rb idx bob g"
  by (induction idx arbitrary: bob g) (simp_all split: prod.splits)

lemma sifted_choice:
  "sifted cfg (src\<lparr>choice := c\<rparr>) e N g = sifted cfg src e N g"
  by (simp add: sifted_def measured_def measurement_def transmitted_def transmission_def
      prepared_def preparation_def measure_loop_choice)

lemma mask_select_all_False:
  "(\<forall>b \<in> set m. \<not> b) \<Longrightarrow> mask_select m xs = []"
  by (auto simp: mask_select_def filter_empty_conv dest: set_zip_leftD)

text \<open>
  C5: if the sifted key is empty, the function returns exactly
  \<open>(None, "Key failure due to sifting.")\<close> and raises nothing. The security check and
  the decision are skipped: the generator is left in the state the measurement left it
  in, and the result is the same whatever \<open>choice\<close> would have returned. The sifted key
  is empty when \<open>NUM_PHOTONS = 0\<close>, and when the drawn bases differ at every position.
\<close>

theorem empty_sift_rejection:
  assumes "0 \<le> NUM_PHOTONS cfg"
    and "s = sifted cfg src e (nat (NUM_PHOTONS cfg)) g"
  shows "(alice_sifted_key s = [] \<longrightarrow>
            run_qkd_protocol cfg src e g =
              Inr ((None, [Lit ''Key failure due to sifting.'']), rng s) \<and>
            (\<forall>c. run_qkd_protocol cfg (src\<lparr>choice := c\<rparr>) e g = run_qkd_protocol cfg src e g)) \<and>
         (NUM_PHOTONS cfg = 0 \<longrightarrow> alice_sifted_key s = []) \<and>
         ((\<forall>i < nat (NUM_PHOTONS cfg). alice_bases s ! i \<noteq> bob_bases s ! i) \<longrightarrow>
            alice_sifted_key s = [])"
proof (intro conjI impI allI)
  assume "alice_sifted_key s = []"
  with assms show "run_qkd_protocol cfg src e g =
      Inr ((None, [Lit ''Key failure due to sifting.'']), rng s)"
    by (simp add: run_qkd_protocol_def sifting_failure_def)
  then show "run_qkd_protocol cfg (src\<lparr>choice := c\<rparr>) e g = run_qkd_protocol cfg src e g" for c
    using assms \<open>alice_sifted_key s = []\<close>
    by (simp add: run_qkd_protocol_def sifted_choice)
next
  assume "NUM_PHOTONS cfg = 0"
  with assms(2) have "length (alice_bits s) = 0"
    by (simp add: sifted_lengths)
  with assms(2) show "alice_sifted_key s = []"
    using length_mask_select [of _ "alice_bits s"]
    by (simp add: sifted_keys sifted_keeps)
next
  let ?N = "nat (NUM_PHOTONS cfg)"
  assume d: "\<forall>i < ?N. alice_bases s ! i \<noteq> bob_bases s ! i"
  let ?m = "map (\<lambda>(a, b). a = b) (zip (alice_bases s) (bob_bases s))"
  have len: "length (alice_bases s) = ?N" "length (bob_bases s) = ?N"
    using assms(2) by (simp_all add: sifted_lengths)
  have "\<forall>b \<in> set ?m. \<not> b"
  proof
    fix b assume "b \<in> set ?m"
    then obtain i where "i < length ?m" "?m ! i = b"
      by (auto simp: in_set_conv_nth)
    with len d show "\<not> b" by auto
  qed
  then have "mask_select ?m (alice_bits s) = []"
    by (rule mask_select_all_False)
  with assms(2) show "alice_sifted_key s = []"
    by (simp add: sifted_keys sifted_keeps)
qed

lemma never_matching_sifted:
  "sifted (small_config\<lparr>NUM_PHOTONS := 2\<rparr>) scripted True 2
     ([1, 0, 0, 1, 1, 0, 0, 0, 1, 1], [1 / 4, 3 / 4], []) =
   \<lparr>alice_bits = [1, 0], alice_bases = [0, 1], bob_bases = [1, 0],
    eve_bases = Some [0, 0], intercept_mask = Some [True, False],
    received_bits = [1, 0], bob_bits = [1, 1], alice_sifted_key = [],
    bob_sifted_key = [], rng = ([], [], [])\<rparr>"
  by code_simp

theorem empty_sift_rejection_witness:
  "run_qkd_protocol (small_config\<lparr>NUM_PHOTONS := 2\<rparr>) scripted True
     ([1, 0, 0, 1, 1, 0, 0, 0, 1, 1], [1 / 4, 3 / 4], []) =
     Inr ((None, [Lit ''Key failure due to sifting.'']), ([], [], [])) \<and>
   run_qkd_protocol (small_config\<lparr>NUM_PHOTONS := 0\<rparr>) scripted False example_script =
     Inr ((None, [Lit ''Key failure due to sifting.'']), example_script)"
proof -
  let ?c2 = "small_config\<lparr>NUM_PHOTONS := 2\<rparr>"
  let ?c0 = "small_config\<lparr>NUM_PHOTONS := 0\<rparr>"
  have n2: "0 \<le> NUM_PHOTONS ?c2" "nat (NUM_PHOTONS ?c2) = 2"
    and n0: "0 \<le> NUM_PHOTONS ?c0" "NUM_PHOTONS ?c0 = 0"
    by (simp_all add: small_config_def)
  have s0: "rng (sifted ?c0 scripted False 0 example_script) = example_script"
    by code_simp
  show ?thesis
    using empty_sift_rejection [OF n2(1) refl, of scripted True
        "([1, 0, 0, 1, 1, 0, 0, 0, 1, 1], [1 / 4, 3 / 4], [])"]
      empty_sift_rejection [OF n0(1) refl, of scripted False example_script]
    by (simp add: n2 n0 never_matching_sifted s0)
qed

subsection \<open>The decision\<close>

lemma run_at_decision:
  assumes "0 \<le> NUM_PHOTONS cfg"
    and "s = sifted cfg src e (nat (NUM_PHOTONS cfg)) g"
    and "alice_sifted_key s \<noteq> []"
    and "security_check src s = Inr (c, g')"
  shows "run_qkd_protocol cfg src e g = Inr (decision cfg c, g')"
  using assms by (simp add: run_qkd_protocol_def)

lemma example_sifted_detected:
  "sifted small_config scripted True 8 (fst example_script, fst (snd example_script), [[0]]) =
   \<lparr>alice_bits = [1, 0, 1, 1, 0, 0, 1, 0],
    alice_bases = [0, 1, 0, 1, 0, 1, 0, 1],
    bob_bases = [0, 0, 0, 1, 1, 1, 0, 0],
    eve_bases = Some [1, 1, 0, 1, 0, 1, 1, 0],
    intercept_mask = Some [True, False, True, False, True, True, False, True],
    received_bits = [0, 0, 1, 1, 0, 0, 1, 1],
    bob_bits = [0, 1, 1, 1, 0, 0, 1, 1],
    alice_sifted_key = [1, 1, 1, 0, 1],
    bob_sifted_key = [0, 1, 1, 0, 1],
    rng = ([], [], [[0]])\<rparr>"
  by code_simp


lemma small_config_photons: "0 \<le> NUM_PHOTONS small_config" "nat (NUM_PHOTONS small_config) = 8"
  by (simp_all add: small_config_def)



subsection \<open>The security check\<close>

lemma security_check_Inr:
  assumes "security_check src s = Inr (c, g')"
  shows "CHECK_SIZE c = length (alice_sifted_key s) div 4"
    and "check_indices c = fst (choice src (length (alice_sifted_key s)) (CHECK_SIZE c) (rng s))"
    and "g' = snd (choice src (length (alice_sifted_key s)) (CHECK_SIZE c) (rng s))"
    and "\<forall>i \<in> set (check_indices c). i < length (alice_sifted_key s)"
    and "\<forall>i \<in> set (check_indices c). i < length (bob_sifted_key s)"
    and "errors c = length (filter (\<lambda>i. alice_sifted_key s ! i \<noteq> bob_sifted_key s ! i)
            (check_indices c))"
    and "qber c = (if CHECK_SIZE c > 0 then of_nat (errors c) / of_nat (CHECK_SIZE c) else 0)"
    and "remaining_key c =
           mask_select (map (\<lambda>i. i \<notin> set (check_indices c)) [0..<length (alice_sifted_key s)])
             (alice_sifted_key s)"
proof -
  let ?n = "length (alice_sifted_key s)"
  obtain idx g1 where ch: "choice src ?n (?n div 4) (rng s) = (idx, g1)"
    by (cases "choice src ?n (?n div 4) (rng s)")
  have zf: "length (filter (\<lambda>(a, b). a \<noteq> b) (zip (map f idx) (map h idx))) =
      length (filter (\<lambda>i. f i \<noteq> h i) idx)" for f h :: "nat \<Rightarrow> int"
    by (induction idx) simp_all
  from assms ch have r:
    "(\<forall>i \<in> set idx. i < ?n) \<and> (\<forall>i \<in> set idx. i < length (bob_sifted_key s)) \<and>
     c = \<lparr>CHECK_SIZE = ?n div 4, check_indices = idx,
          errors = length (filter (\<lambda>i. alice_sifted_key s ! i \<noteq> bob_sifted_key s ! i) idx),
          qber = (if ?n div 4 > 0
                  then of_nat (length (filter (\<lambda>i. alice_sifted_key s ! i \<noteq> bob_sifted_key s ! i) idx))
                       / of_nat (?n div 4) else 0),
          remaining_key = mask_select (map (\<lambda>i. i \<notin> set idx) [0..<?n]) (alice_sifted_key s)\<rparr> \<and>
     g' = g1"
    by (auto simp: security_check_def index_select_def Let_def zf split: if_splits)
  then show "CHECK_SIZE c = ?n div 4" by simp
  with r ch show "check_indices c = fst (choice src ?n (CHECK_SIZE c) (rng s))" by simp
  from r ch \<open>CHECK_SIZE c = ?n div 4\<close>
  show "g' = snd (choice src ?n (CHECK_SIZE c) (rng s))" by simp
  from r show "\<forall>i \<in> set (check_indices c). i < ?n" by simp
  from r show "\<forall>i \<in> set (check_indices c). i < length (bob_sifted_key s)" by simp
  from r show "errors c = length (filter (\<lambda>i. alice_sifted_key s ! i \<noteq> bob_sifted_key s ! i)
            (check_indices c))" by simp
  from r show "qber c = (if CHECK_SIZE c > 0 then of_nat (errors c) / of_nat (CHECK_SIZE c) else 0)"
    by simp
  from r show "remaining_key c =
           mask_select (map (\<lambda>i. i \<notin> set (check_indices c)) [0..<?n]) (alice_sifted_key s)"
    by simp
qed

lemma length_sifted_keys:
  "length (alice_sifted_key (sifted cfg src e N g)) = length (bob_sifted_key (sifted cfg src e N g))"
  by (simp add: sifted_keys mask_select_nth prepared_lengths length_bob_bits)

lemma length_sifted_le: "length (alice_sifted_key (sifted cfg src e N g)) \<le> N"
  using length_mask_select [of _ "alice_bits (prepared src N g)"]
  by (simp add: sifted_keys prepared_lengths)

lemma remaining_key_nth:
  assumes "security_check src s = Inr (c, g')"
  shows "remaining_key c =
         map (\<lambda>i. alice_sifted_key s ! i)
           (filter (\<lambda>i. i \<notin> set (check_indices c)) [0..<length (alice_sifted_key s)])"
proof -
  let ?n = "length (alice_sifted_key s)"
  let ?m = "map (\<lambda>i. i \<notin> set (check_indices c)) [0..<?n]"
  have "filter (\<lambda>i. ?m ! i) [0..<?n] = filter (\<lambda>i. i \<notin> set (check_indices c)) [0..<?n]"
    by (rule filter_cong) simp_all
  then show ?thesis
    using mask_select_nth [of ?m "alice_sifted_key s"] security_check_Inr(8) [OF assms]
    by simp
qed

lemma length_rest:
  assumes "distinct idx" "\<forall>i \<in> set idx. i < n"
  shows "length (filter (\<lambda>i. i \<notin> set idx) [0..<n]) = n - length idx"
proof -
  have "length (filter (\<lambda>i. i \<notin> set idx) [0..<n]) = card ({0..<n} - set idx)"
    by (simp add: distinct_length_filter Diff_eq Int_commute Collect_neg_eq)
  also have "\<dots> = card {0..<n} - card (set idx)"
    using assms(2) by (intro card_Diff_subset) auto
  finally show ?thesis
    using assms(1) by (simp add: distinct_card)
qed

lemma security_check_returns:
  assumes "\<forall>i \<in> set (fst (choice src (length (alice_sifted_key s))
              (length (alice_sifted_key s) div 4) (rng s))). i < length (alice_sifted_key s)"
    and "length (bob_sifted_key s) = length (alice_sifted_key s)"
  shows "\<exists>r. security_check src s = Inr r"
  using assms
  by (auto simp: security_check_def index_select_def Let_def split: prod.splits)

lemma qber_bounds:
  assumes "security_check src s = Inr (c, g')"
    and "length (check_indices c) = CHECK_SIZE c"
    and "distinct (check_indices c)"
  shows "errors c = card {i \<in> set (check_indices c).
            alice_sifted_key s ! i \<noteq> bob_sifted_key s ! i}"
    and "0 \<le> qber c" and "qber c \<le> 1"
proof -
  let ?P = "\<lambda>i. alice_sifted_key s ! i \<noteq> bob_sifted_key s ! i"
  note sc = security_check_Inr [OF assms(1)]
  show "errors c = card {i \<in> set (check_indices c). ?P i}"
    using assms(3) sc(6) by (simp add: distinct_length_filter Int_def conj_commute)
  have "errors c \<le> length (check_indices c)"
    using sc(6) by simp
  with assms(2) have le: "errors c \<le> CHECK_SIZE c" by simp
  have q: "qber c = (if CHECK_SIZE c = 0 then 0 else of_nat (errors c) / of_nat (CHECK_SIZE c))"
    using sc(7) by simp
  show "0 \<le> qber c" using q by simp
  show "qber c \<le> 1"
  proof (cases "CHECK_SIZE c = 0")
    case True
    with q show ?thesis by simp
  next
    case False
    with le have "(of_nat (errors c) :: rat) \<le> of_nat (CHECK_SIZE c)"
      by simp
    with False q show ?thesis
      by (simp add: divide_le_eq_1)
  qed
qed

lemma security_check_promised:
  assumes "s = sifted cfg src e N g"
    and "n = length (alice_sifted_key s)"
    and "idx = fst (choice src n (n div 4) (rng s))"
    and "\<forall>i \<in> set idx. i < n"
  obtains c g' where "security_check src s = Inr (c, g')" "CHECK_SIZE c = n div 4"
    "check_indices c = idx"
proof -
  have "length (bob_sifted_key s) = length (alice_sifted_key s)"
    unfolding assms(1) by (rule length_sifted_keys [symmetric])
  with assms(2,3,4) security_check_returns [of src s]
  obtain c g' where sc: "security_check src s = Inr (c, g')"
    by auto
  from security_check_Inr(1,2) [OF sc] assms(2,3)
  have "CHECK_SIZE c = n div 4" "check_indices c = idx"
    by simp_all
  with sc that show thesis by blast
qed

text \<open>
  C2: in a run where sifting succeeded, the security check asks \<open>choice\<close> for
  \<open>n div 4\<close> indices of the \<open>n\<close> elements of the sifted key and takes what it
  returns as the check sample: \<open>CHECK_SIZE\<close> is \<open>n div 4\<close>, and \<open>qber\<close> is the number
  of check indices at which the two sifted keys differ, divided by \<open>CHECK_SIZE\<close>, or 0
  when \<open>CHECK_SIZE\<close> is 0; it lies between 0 and 1. The three premises on the value
  of that \<open>choice\<close> call are what numpy promises of \<open>choice(n, k, replace=False)\<close>:
  \<open>k\<close> distinct indices below \<open>n\<close>.
\<close>

theorem qber_of_check_sample:
  assumes "s = sifted cfg src e N g"
    and "n = length (alice_sifted_key s)"
    and "idx = fst (choice src n (n div 4) (rng s))"
    and "length idx = n div 4" and "distinct idx" and "\<forall>i \<in> set idx. i < n"
  shows "\<exists>c g'. security_check src s = Inr (c, g') \<and>
           CHECK_SIZE c = n div 4 \<and> check_indices c = idx \<and>
           errors c = card {i \<in> set idx. alice_sifted_key s ! i \<noteq> bob_sifted_key s ! i} \<and>
           qber c =
             (if n div 4 = 0 then 0
              else of_nat (card {i \<in> set idx.
                      alice_sifted_key s ! i \<noteq> bob_sifted_key s ! i}) / of_nat (n div 4)) \<and>
           0 \<le> qber c \<and> qber c \<le> 1"
proof -
  obtain c g' where sc: "security_check src s = Inr (c, g')"
    and k: "CHECK_SIZE c = n div 4" and i: "check_indices c = idx"
    using assms(1,2,3,6) by (rule security_check_promised)
  from k i assms(4,5) have p: "length (check_indices c) = CHECK_SIZE c" "distinct (check_indices c)"
    by simp_all
  note b = qber_bounds [OF sc p]
  have "qber c = (if n div 4 = 0 then 0
      else of_nat (card {i \<in> set idx.
              alice_sifted_key s ! i \<noteq> bob_sifted_key s ! i}) / of_nat (n div 4))"
    using security_check_Inr(7) [OF sc] b(1) k i by simp
  with sc k i b show ?thesis
    by auto
qed

theorem qber_of_check_sample_witness:
  "\<exists>c g'. security_check scripted
       (sifted small_config scripted True 8 (fst example_script, fst (snd example_script), [[0]])) =
       Inr (c, g') \<and>
     CHECK_SIZE c = 5 div 4 \<and> check_indices c = [0] \<and> errors c = 1 \<and>
     qber c = 1 \<and> 0 \<le> qber c \<and> qber c \<le> 1"
proof -
  let ?s = "sifted small_config scripted True 8 (fst example_script, fst (snd example_script), [[0]])"
  have n: "5 = length (alice_sifted_key ?s)"
    by (simp add: example_sifted_detected)
  have i: "[0] = fst (choice scripted 5 (5 div 4) (rng ?s))"
    unfolding example_sifted_detected by code_simp
  have "{i \<in> set [0 :: nat]. alice_sifted_key ?s ! i \<noteq> bob_sifted_key ?s ! i} = {0}"
    by (auto simp: example_sifted_detected)
  then have c: "card {i \<in> set [0 :: nat]. alice_sifted_key ?s ! i \<noteq> bob_sifted_key ?s ! i} = 1"
    by simp
  have "length [0 :: nat] = 5 div 4" "distinct [0 :: nat]" "\<forall>i \<in> set [0 :: nat]. i < 5"
    by simp_all
  from qber_of_check_sample [OF refl n i this]
  obtain c' g' where h: "security_check scripted ?s = Inr (c', g')"
    "CHECK_SIZE c' = 5 div 4" "check_indices c' = [0]"
    "errors c' = card {i \<in> set [0 :: nat]. alice_sifted_key ?s ! i \<noteq> bob_sifted_key ?s ! i}"
    "qber c' = (if (5 :: nat) div 4 = 0 then 0
       else of_nat (card {i \<in> set [0 :: nat]. alice_sifted_key ?s ! i \<noteq> bob_sifted_key ?s ! i})
            / of_nat (5 div 4))"
    "0 \<le> qber c'" "qber c' \<le> 1"
    by blast
  from h(4) c have e: "errors c' = 1" by (simp only:)
  from h(5) have q: "qber c' = 1" unfolding c by simp
  from h(1,2,3) e q h(6,7) show ?thesis
    by blast
qed

text \<open>
  C6: in a run where sifting succeeded, the check indices are what \<open>choice\<close> returns
  when asked for \<open>n div 4\<close> indices of the \<open>n\<close> elements of the sifted key, so they
  are \<open>CHECK_SIZE\<close> distinct indices of the sifted key, and the remaining key is the
  sifted key at the other indices, in increasing order. The two index sets are
  disjoint and cover the sifted index range, the sifted key is no longer than \<open>N\<close>,
  and the remaining key has sifted length minus \<open>CHECK_SIZE\<close> elements. The three
  premises on the value of that \<open>choice\<close> call are numpy's promise for
  \<open>choice(n, k, replace=False)\<close>.
\<close>

theorem check_sample_partition:
  assumes "s = sifted cfg src e N g"
    and "n = length (alice_sifted_key s)"
    and "idx = fst (choice src n (n div 4) (rng s))"
    and "length idx = n div 4" and "distinct idx" and "\<forall>i \<in> set idx. i < n"
    and "rest = filter (\<lambda>i. i \<notin> set idx) [0..<n]"
  shows "\<exists>c g'. security_check src s = Inr (c, g') \<and>
           CHECK_SIZE c = n div 4 \<and> check_indices c = idx \<and>
           card (set (check_indices c)) = CHECK_SIZE c \<and>
           set (check_indices c) \<subseteq> {0..<n} \<and>
           remaining_key c = map (\<lambda>i. alice_sifted_key s ! i) rest \<and>
           set (check_indices c) \<inter> set rest = {} \<and>
           set (check_indices c) \<union> set rest = {0..<n} \<and>
           n \<le> N \<and>
           length (remaining_key c) = n - CHECK_SIZE c"
proof -
  obtain c g' where sc: "security_check src s = Inr (c, g')"
    and k: "CHECK_SIZE c = n div 4" and i: "check_indices c = idx"
    using assms(1,2,3,6) by (rule security_check_promised)
  have rk: "remaining_key c = map (\<lambda>i. alice_sifted_key s ! i) rest"
    using remaining_key_nth [OF sc] assms(2,7) i by simp
  have sub: "set idx \<subseteq> {0..<n}"
    using assms(6) by auto
  have "length rest = n - length idx"
    unfolding assms(7) using assms(5,6) by (rule length_rest)
  with rk assms(4) k have len: "length (remaining_key c) = n - CHECK_SIZE c"
    by simp
  have card: "card (set idx) = n div 4"
    using assms(4,5) by (simp add: distinct_card)
  have disj: "set idx \<inter> set rest = {}"
    unfolding assms(7) by auto
  have cover: "set idx \<union> set rest = {0..<n}"
    unfolding assms(7) using sub by auto
  have le: "n \<le> N"
    unfolding assms(1,2) by (rule length_sifted_le)
  from sc k i rk sub len card disj cover le show ?thesis
    by auto
qed

theorem check_sample_partition_witness:
  "\<exists>c g'. security_check scripted (sifted small_config scripted True 8 example_script) =
       Inr (c, g') \<and>
     CHECK_SIZE c = 5 div 4 \<and> check_indices c = [4] \<and>
     card (set (check_indices c)) = CHECK_SIZE c \<and>
     remaining_key c = map (\<lambda>i. [1, 1, 1, 0, 1] ! i) [0, 1, 2, 3] \<and>
     set (check_indices c) \<inter> set [0, 1, 2, 3] = {} \<and>
     length (remaining_key c) = 5 - CHECK_SIZE c"
proof -
  let ?s = "sifted small_config scripted True 8 example_script"
  have n: "5 = length (alice_sifted_key ?s)"
    by (simp add: example_sifted)
  have i: "[4] = fst (choice scripted 5 (5 div 4) (rng ?s))"
    unfolding example_sifted by code_simp
  have r: "[0, 1, 2, 3] = filter (\<lambda>i. i \<notin> set [4 :: nat]) [0..<5]"
    by code_simp
  have "length [4 :: nat] = 5 div 4" "distinct [4 :: nat]" "\<forall>i \<in> set [4 :: nat]. i < 5"
    by simp_all
  from check_sample_partition [OF refl n i this r]
  obtain c g' where h: "security_check scripted ?s = Inr (c, g') \<and>
      CHECK_SIZE c = 5 div 4 \<and> check_indices c = [4] \<and>
      card (set (check_indices c)) = CHECK_SIZE c \<and>
      set (check_indices c) \<subseteq> {0..<5} \<and>
      remaining_key c = map (\<lambda>i. alice_sifted_key ?s ! i) [0, 1, 2, 3] \<and>
      set (check_indices c) \<inter> set [0, 1, 2, 3] = {} \<and>
      set (check_indices c) \<union> set [0, 1, 2, 3] = {0..<5} \<and>
      5 \<le> (8 :: nat) \<and>
      length (remaining_key c) = 5 - CHECK_SIZE c"
    by blast
  then have "security_check scripted ?s = Inr (c, g') \<and>
     CHECK_SIZE c = 5 div 4 \<and> check_indices c = [4] \<and>
     card (set (check_indices c)) = CHECK_SIZE c \<and>
     remaining_key c = map (\<lambda>i. [1, 1, 1, 0, 1] ! i) [0, 1, 2, 3] \<and>
     set (check_indices c) \<inter> set [0, 1, 2, 3] = {} \<and>
     length (remaining_key c) = 5 - CHECK_SIZE c"
    unfolding example_sifted by simp
  then show ?thesis
    by blast
qed

subsection \<open>Transmission\<close>

lemma flip_differs: "1 - b \<noteq> (b :: int)"
  by presburger

text \<open>
  C3: without an eavesdropper the received bits are Alice's bits and no eavesdropper
  state exists. With an eavesdropper, the received bit at position \<open>i\<close> is \<open>1 - b\<close> for
  Alice's bit \<open>b\<close> where the interception mask is true and Alice's basis differs from
  Eve's, and \<open>b\<close> itself everywhere else; so the received bit differs from Alice's
  exactly at the positions of the error mask.
\<close>

theorem received_bits_flipped:
  assumes "s = sifted cfg src e N g"
  shows "length (received_bits s) = N \<and>
         (\<not> e \<longrightarrow> received_bits s = alice_bits s \<and> eve_bases s = None \<and>
            intercept_mask s = None) \<and>
         (e \<longrightarrow> (\<exists>eb im. eve_bases s = Some eb \<and> intercept_mask s = Some im \<and>
            length eb = N \<and> length im = N \<and>
            (\<forall>i < N. received_bits s ! i =
                 (if im ! i \<and> alice_bases s ! i \<noteq> eb ! i then 1 - alice_bits s ! i
                  else alice_bits s ! i) \<and>
               (received_bits s ! i \<noteq> alice_bits s ! i \<longleftrightarrow>
                  im ! i \<and> alice_bases s ! i \<noteq> eb ! i))))"
proof -
  have len: "length (received_bits s) = N"
    using assms by (simp add: sifted_keeps length_received_bits)
  have absent: "received_bits s = alice_bits s \<and> eve_bases s = None \<and>
      intercept_mask s = None" if "\<not> e"
    using that assms by (simp add: sifted_keeps transmitted_absent)
  have present: "\<exists>eb im. eve_bases s = Some eb \<and> intercept_mask s = Some im \<and>
      length eb = N \<and> length im = N \<and>
      (\<forall>i < N. received_bits s ! i =
           (if im ! i \<and> alice_bases s ! i \<noteq> eb ! i then 1 - alice_bits s ! i
            else alice_bits s ! i) \<and>
         (received_bits s ! i \<noteq> alice_bits s ! i \<longleftrightarrow>
            im ! i \<and> alice_bases s ! i \<noteq> eb ! i))" if e
  proof -
  obtain eb im where t:
    "eve_bases (transmitted cfg src True N g) = Some eb"
    "intercept_mask (transmitted cfg src True N g) = Some im"
    "length eb = N" "length im = N"
    "received_bits (transmitted cfg src True N g) =
       flip_masked (map (\<lambda>(m, d). m \<and> d) (zip im
          (map (\<lambda>(a, e). a \<noteq> e) (zip (alice_bases (prepared src N g)) eb))))
        (alice_bits (prepared src N g))"
    by (rule transmitted_present)
  have "received_bits s ! i =
      (if im ! i \<and> alice_bases s ! i \<noteq> eb ! i then 1 - alice_bits s ! i
       else alice_bits s ! i)" if "i < N" for i
    using that assms \<open>e\<close> t(3,4,5)
    by (simp add: sifted_keeps flip_masked_nth prepared_lengths)
  then have all: "\<forall>i < N. received_bits s ! i =
      (if im ! i \<and> alice_bases s ! i \<noteq> eb ! i then 1 - alice_bits s ! i
       else alice_bits s ! i) \<and>
      (received_bits s ! i \<noteq> alice_bits s ! i \<longleftrightarrow>
         im ! i \<and> alice_bases s ! i \<noteq> eb ! i)"
    by (simp add: flip_differs)
  have "eve_bases s = Some eb" "intercept_mask s = Some im"
    using t(1,2) assms \<open>e\<close> by (simp_all add: sifted_keeps)
  with t(3,4) all show ?thesis
    by blast
  qed
  from len absent present show ?thesis
    by blast
qed

theorem received_bits_flipped_witness:
  "length (received_bits (sifted small_config scripted True 8 example_script)) = 8 \<and>
   received_bits (sifted small_config scripted True 8 example_script) ! 0 =
     1 - alice_bits (sifted small_config scripted True 8 example_script) ! 0 \<and>
   received_bits (sifted small_config scripted True 8 example_script) ! 1 =
     alice_bits (sifted small_config scripted True 8 example_script) ! 1"
proof -
  let ?s = "sifted small_config scripted True 8 example_script"
  from received_bits_flipped [OF refl, of small_config scripted True 8 example_script]
  obtain eb im where h: "length (received_bits ?s) = 8"
    "eve_bases ?s = Some eb" "intercept_mask ?s = Some im"
    "\<forall>i < 8. received_bits ?s ! i =
        (if im ! i \<and> alice_bases ?s ! i \<noteq> eb ! i then 1 - alice_bits ?s ! i
         else alice_bits ?s ! i)"
    by auto
  from h(2,3) have "eb = [1, 1, 0, 1, 0, 1, 1, 0]"
    "im = [True, False, True, False, True, True, False, True]"
    by (simp_all add: example_sifted)
  with h(1) h(4) [rule_format, of 0] h(4) [rule_format, of 1] show ?thesis
    by (simp add: example_sifted)
qed

subsection \<open>Measurement\<close>

lemma measurement_nth:
  assumes "length (alice_bases s) = N" "length (bob_bases s) = N" "i < N"
  shows "bob_bits (measurement src N s) ! i =
         (if alice_bases s ! i = bob_bases s ! i then received_bits s ! i
          else draw_at src (rng s)
                 (card {j. j < i \<and> alice_bases s ! j \<noteq> bob_bases s ! j}))"
proof -
  let ?mm = "map (\<lambda>(a, b). a = b) (zip (alice_bases s) (bob_bases s))"
  have b: "bob_bits (measurement src N s) =
      fst (measure_loop src ?mm (received_bits s) [0..<N] (replicate N 0) (rng s))"
    by (simp add: measurement_def Let_def split: prod.splits)
  have "filter (\<lambda>j. \<not> ?mm ! j) [0..<i] =
      filter (\<lambda>j. alice_bases s ! j \<noteq> bob_bases s ! j) [0..<i]"
    using assms by (intro filter_cong) simp_all
  then have "length (filter (\<lambda>j. \<not> ?mm ! j) (take i [0..<N])) =
      card {j. j < i \<and> alice_bases s ! j \<noteq> bob_bases s ! j}"
    using assms(3) by (simp add: take_upt distinct_length_filter Int_def conj_commute)
  moreover have "fst (measure_loop src ?mm (received_bits s) [0..<N] (replicate N 0) (rng s))
        ! ([0..<N] ! i) =
      (if ?mm ! ([0..<N] ! i) then received_bits s ! ([0..<N] ! i)
       else draw_at src (rng s) (length (filter (\<lambda>j. \<not> ?mm ! j) (take i [0..<N]))))"
    using assms(3) by (intro measure_loop_nth) simp_all
  ultimately show ?thesis
    using assms b by simp
qed

lemma transmitted_lengths:
  "length (alice_bases (transmitted cfg src e N g)) = N"
  "length (bob_bases (transmitted cfg src e N g)) = N"
  by (simp_all add: transmitted_keeps prepared_lengths)

text \<open>
  C4: at a position where Alice's and Bob's bases are equal, Bob's bit is the received
  bit. At every other position it is the value of a scalar \<open>randint(0, 2)\<close> call made
  in the loop: the next one after the calls made at the earlier positions with
  differing bases. That value is the same whatever the received bits and the
  eavesdropper's state are. (That the call is uniform on 0 and 1 is a property of the
  generator, which is a parameter here.)
\<close>

theorem bob_bits_measured:
  assumes "s = transmitted cfg src e N g" and "i < N"
  shows "bob_bits (sifted cfg src e N g) = bob_bits (measurement src N s) \<and>
         (alice_bases s ! i = bob_bases s ! i \<longrightarrow>
            bob_bits (measurement src N s) ! i = received_bits s ! i) \<and>
         (alice_bases s ! i \<noteq> bob_bases s ! i \<longrightarrow>
            bob_bits (measurement src N s) ! i =
              draw_at src (rng s) (card {j. j < i \<and> alice_bases s ! j \<noteq> bob_bases s ! j}) \<and>
            (\<forall>rb eb im.
               bob_bits (measurement src N
                 (s\<lparr>received_bits := rb, eve_bases := eb, intercept_mask := im\<rparr>)) ! i =
               bob_bits (measurement src N s) ! i))"
proof -
  have len: "length (alice_bases s) = N" "length (bob_bases s) = N"
    using assms(1) by (simp_all add: transmitted_lengths)
  have "bob_bits (sifted cfg src e N g) = bob_bits (measurement src N s)"
    using assms(1) by (simp add: sifted_keeps measured_def)
  moreover have "bob_bits (measurement src N
        (s\<lparr>received_bits := rb, eve_bases := eb, intercept_mask := im\<rparr>)) ! i =
      bob_bits (measurement src N s) ! i"
    if "alice_bases s ! i \<noteq> bob_bases s ! i" for rb eb im
    using that len assms(2)
    by (simp add: measurement_nth)
  ultimately show ?thesis
    using len assms(2) by (simp add: measurement_nth)
qed

theorem bob_bits_measured_witness:
  "bob_bits (sifted small_config scripted True 8 example_script) ! 0 =
     received_bits (sifted small_config scripted True 8 example_script) ! 0 \<and>
   bob_bits (sifted small_config scripted True 8 example_script) ! 4 =
     draw_at scripted ([1, 0, 1], [], [[4]]) 1"
proof -
  let ?s = "transmitted small_config scripted True 8 example_script"
  have s: "?s = \<lparr>alice_bits = [1, 0, 1, 1, 0, 0, 1, 0],
    alice_bases = [0, 1, 0, 1, 0, 1, 0, 1],
    bob_bases = [0, 0, 0, 1, 1, 1, 0, 0],
    eve_bases = Some [1, 1, 0, 1, 0, 1, 1, 0],
    intercept_mask = Some [True, False, True, False, True, True, False, True],
    received_bits = [0, 0, 1, 1, 0, 0, 1, 1],
    bob_bits = [], alice_sifted_key = [], bob_sifted_key = [],
    rng = ([1, 0, 1], [], [[4]])\<rparr>"
    by code_simp
  have c: "card {j. j < (4 :: nat) \<and> [0, 1, 0, 1, 0, 1, 0, 1 :: int] ! j \<noteq> [0, 0, 0, 1, 1, 1, 0, 0] ! j}
      = 1"
  proof -
    have "{j. j < (4 :: nat) \<and> [0, 1, 0, 1, 0, 1, 0, 1 :: int] ! j \<noteq> [0, 0, 0, 1, 1, 1, 0, 0] ! j}
        = {1}"
      by (auto simp: less_Suc_eq eval_nat_numeral nth_Cons')
    then show ?thesis by simp
  qed
  have i0: "(0 :: nat) < 8" and i4: "(4 :: nat) < 8" by simp_all
  from bob_bits_measured [OF refl i0, of small_config scripted True example_script]
    bob_bits_measured [OF refl i4, of small_config scripted True example_script]
  show ?thesis
    unfolding s by (simp add: c example_sifted)
qed

subsection \<open>A run without eavesdropper\<close>

lemma sifted_keys_agree_absent:
  "alice_sifted_key (sifted cfg src False N g) = bob_sifted_key (sifted cfg src False N g)"
proof -
  let ?t = "transmitted cfg src False N g"
  let ?m = "map (\<lambda>(a, b). a = b) (zip (alice_bases (prepared src N g)) (bob_bases (prepared src N g)))"
  have "alice_bits (prepared src N g) ! i = bob_bits (measured cfg src False N g) ! i"
    if "i < length ?m" "?m ! i" for i
  proof -
    from that have i: "i < N" and eq: "alice_bases ?t ! i = bob_bases ?t ! i"
      by (simp_all add: prepared_lengths transmitted_keeps)
    have "bob_bits (measurement src N ?t) ! i = received_bits ?t ! i"
      using i eq by (simp add: measurement_nth transmitted_lengths)
    then show ?thesis
      by (simp add: measured_def transmitted_absent)
  qed
  then have "mask_select ?m (alice_bits (prepared src N g)) =
      mask_select ?m (bob_bits (measured cfg src False N g))"
    by (intro mask_select_cong) (simp_all add: prepared_lengths length_bob_bits)
  then show ?thesis
    by (simp add: sifted_keys)
qed

lemma texts_differ: "intrusion_text q \<noteq> sifting_failure"
  by (simp add: intrusion_text_def sifting_failure_def)

lemma example_sifted_absent:
  "sifted small_config scripted False 8 example_script =
   \<lparr>alice_bits = [1, 0, 1, 1, 0, 0, 1, 0],
    alice_bases = [0, 1, 0, 1, 0, 1, 0, 1],
    bob_bases = [0, 0, 0, 1, 1, 1, 0, 0],
    eve_bases = None, intercept_mask = None,
    received_bits = [1, 0, 1, 1, 0, 0, 1, 0],
    bob_bits = [1, 1, 1, 1, 1, 0, 1, 0],
    alice_sifted_key = [1, 1, 1, 0, 1],
    bob_sifted_key = [1, 1, 1, 0, 1],
    rng = ([1, 0, 1, 1, 0, 1, 0, 1],
           [1 / 4, 3 / 4, 1 / 4, 3 / 4, 1 / 4, 1 / 4, 3 / 4, 1 / 4], [[4]])\<rparr>"
  by code_simp

text \<open>
  C9: without an eavesdropper the two sifted keys are equal, so every security check
  counts no error and has \<open>qber = 0\<close>. With a threshold that is not negative (the
  module's is 0.11) the run never returns the intrusion text: a run that returns
  \<open>None\<close> is the empty-sift rejection. When \<open>choice\<close> returns indices of the sifted
  key, as numpy promises, the run returns.
\<close>

theorem no_eavesdropper_no_error:
  assumes "0 \<le> NUM_PHOTONS cfg"
    and "s = sifted cfg src False (nat (NUM_PHOTONS cfg)) g"
    and "0 \<le> SECURITY_THRESHOLD cfg"
  shows "alice_sifted_key s = bob_sifted_key s \<and>
         (\<forall>c g'. security_check src s = Inr (c, g') \<longrightarrow> errors c = 0 \<and> qber c = 0) \<and>
         (\<forall>q g'. run_qkd_protocol cfg src False g \<noteq> Inr ((None, intrusion_text q), g')) \<and>
         (\<forall>msg g'. run_qkd_protocol cfg src False g = Inr ((None, msg), g') \<longrightarrow>
            msg = [Lit ''Key failure due to sifting.''] \<and> alice_sifted_key s = []) \<and>
         ((\<forall>i \<in> set (fst (choice src (length (alice_sifted_key s))
               (length (alice_sifted_key s) div 4) (rng s))). i < length (alice_sifted_key s)) \<longrightarrow>
            (\<exists>r. run_qkd_protocol cfg src False g = Inr r))"
proof -
  have eq: "alice_sifted_key s = bob_sifted_key s"
    unfolding assms(2) by (rule sifted_keys_agree_absent)
  have zero: "errors c = 0 \<and> qber c = 0" if "security_check src s = Inr (c, g')" for c g'
    using security_check_Inr(6,7) [OF that] eq by simp
  have none: "msg = [Lit ''Key failure due to sifting.''] \<and> alice_sifted_key s = []"
    if r: "run_qkd_protocol cfg src False g = Inr ((None, msg), g')" for msg g'
  proof (cases "alice_sifted_key s = []")
    case True
    with r assms(1,2) show ?thesis
      by (simp add: run_qkd_protocol_def sifting_failure_def)
  next
    case False
    with r assms(1,2) obtain c where c: "security_check src s = Inr (c, g')"
      and d: "decision cfg c = (None, msg)"
      by (auto simp: run_qkd_protocol_def split: sum.splits)
    from zero [OF c] assms(3) d show ?thesis
      by (simp add: decision_def)
  qed
  have never: "run_qkd_protocol cfg src False g \<noteq> Inr ((None, intrusion_text q), g')" for q g'
    using none [of "intrusion_text q" g'] texts_differ [of q]
    by (auto simp: sifting_failure_def)
  have returns: "\<exists>r. run_qkd_protocol cfg src False g = Inr r"
    if "\<forall>i \<in> set (fst (choice src (length (alice_sifted_key s))
               (length (alice_sifted_key s) div 4) (rng s))). i < length (alice_sifted_key s)"
  proof -
    from security_check_returns [OF that] eq
    obtain c g' where "security_check src s = Inr (c, g')" by auto
    with assms(1,2) show ?thesis
      by (cases "alice_sifted_key s = []") (simp_all add: run_qkd_protocol_def)
  qed
  from eq zero none never returns show ?thesis
    by blast
qed

theorem no_eavesdropper_no_error_witness:
  "alice_sifted_key (sifted small_config scripted False 8 example_script) =
     bob_sifted_key (sifted small_config scripted False 8 example_script) \<and>
   (\<exists>r. run_qkd_protocol small_config scripted False example_script = Inr r)"
proof -
  let ?s = "sifted small_config scripted False (nat (NUM_PHOTONS small_config)) example_script"
  have t: "0 \<le> SECURITY_THRESHOLD small_config"
    by (simp add: small_config_def)
  have s: "?s = sifted small_config scripted False 8 example_script"
    by (simp add: small_config_photons)
  have "\<forall>i \<in> set (fst (choice scripted (length (alice_sifted_key ?s))
      (length (alice_sifted_key ?s) div 4) (rng ?s))). i < length (alice_sifted_key ?s)"
    unfolding s example_sifted_absent by code_simp
  with no_eavesdropper_no_error [OF small_config_photons(1) refl t, of scripted example_script]
  have "alice_sifted_key ?s = bob_sifted_key ?s \<and>
      (\<exists>r. run_qkd_protocol small_config scripted False example_script = Inr r)"
    by blast
  then show ?thesis
    by (simp add: small_config_photons)
qed

subsection \<open>The returned key\<close>

lemma sifted_keys_nth:
  assumes "s = sifted cfg src e N g"
  shows "alice_sifted_key s =
           map (\<lambda>i. alice_bits s ! i) (filter (\<lambda>i. alice_bases s ! i = bob_bases s ! i) [0..<N])"
    and "bob_sifted_key s =
           map (\<lambda>i. bob_bits s ! i) (filter (\<lambda>i. alice_bases s ! i = bob_bases s ! i) [0..<N])"
proof -
  let ?m = "map (\<lambda>(a, b). a = b) (zip (alice_bases (prepared src N g)) (bob_bases (prepared src N g)))"
  have f: "filter (\<lambda>i. ?m ! i) [0..<N] =
      filter (\<lambda>i. alice_bases s ! i = bob_bases s ! i) [0..<N]"
    using assms by (intro filter_cong) (simp_all add: prepared_lengths sifted_keeps)
  show "alice_sifted_key s =
      map (\<lambda>i. alice_bits s ! i) (filter (\<lambda>i. alice_bases s ! i = bob_bases s ! i) [0..<N])"
    using mask_select_nth [of ?m "alice_bits (prepared src N g)"] f assms
    by (simp add: sifted_keys sifted_keeps prepared_lengths)
  show "bob_sifted_key s =
      map (\<lambda>i. bob_bits s ! i) (filter (\<lambda>i. alice_bases s ! i = bob_bases s ! i) [0..<N])"
    using mask_select_nth [of ?m "bob_bits (measured cfg src e N g)"] f assms
    by (simp add: sifted_keys sifted_keeps prepared_lengths length_bob_bits)
qed

lemma example_run:
  "run_qkd_protocol small_config scripted True example_script =
   Inr ((Some [1, 1, 1, 0], secure_text 0 [1, 1, 1, 0]), ([], [], []))"
proof -
  have a: "alice_sifted_key (sifted small_config scripted True (nat (NUM_PHOTONS small_config))
      example_script) \<noteq> []"
    by (simp add: small_config_photons example_sifted)
  have b: "security_check scripted (sifted small_config scripted True
      (nat (NUM_PHOTONS small_config)) example_script) =
      Inr (\<lparr>CHECK_SIZE = 1, check_indices = [4], errors = 0, qber = 0,
         remaining_key = [1, 1, 1, 0]\<rparr>, ([], [], []))"
    by (simp add: small_config_photons example_check)
  show ?thesis
    using run_at_decision [OF small_config_photons(1) refl a b]
    by (simp add: decision_def small_config_def)
qed

text \<open>
  C10: the key a run returns is Alice's sifted key at the indices outside the check
  sample, and Alice's sifted key is \<open>alice_bits\<close> at the positions where the bases are
  equal: Bob's bits are not used for it. In the example run, with an eavesdropper and
  \<open>qber = 0\<close>, the key \<open>[1, 1, 1, 0]\<close> is returned, while Bob's sifted bits at the same
  indices are \<open>[0, 1, 1, 0]\<close>.
\<close>

theorem returned_key_is_alices:
  assumes "0 \<le> NUM_PHOTONS cfg"
    and "N = nat (NUM_PHOTONS cfg)"
    and "s = sifted cfg src e N g"
    and "run_qkd_protocol cfg src e g = Inr ((Some key, msg), g')"
  shows "(\<exists>c. security_check src s = Inr (c, g') \<and> \<not> qber c > SECURITY_THRESHOLD cfg \<and>
            key = map (\<lambda>j. alice_sifted_key s ! j)
                    (filter (\<lambda>j. j \<notin> set (check_indices c)) [0..<length (alice_sifted_key s)])) \<and>
         alice_sifted_key s =
           map (\<lambda>i. alice_bits s ! i) (filter (\<lambda>i. alice_bases s ! i = bob_bases s ! i) [0..<N]) \<and>
         run_qkd_protocol small_config scripted True example_script =
           Inr ((Some [1, 1, 1, 0], secure_text 0 [1, 1, 1, 0]), ([], [], [])) \<and>
         map (\<lambda>j. bob_sifted_key (sifted small_config scripted True 8 example_script) ! j)
           [0, 1, 2, 3] = [0, 1, 1, 0]"
proof -
  from assms have ne: "alice_sifted_key s \<noteq> []"
    by (auto simp: run_qkd_protocol_def Let_def split: if_splits)
  with assms obtain c where c: "security_check src s = Inr (c, g')"
    and d: "decision cfg c = (Some key, msg)"
    by (auto simp: run_qkd_protocol_def split: sum.splits)
  from d have "\<not> qber c > SECURITY_THRESHOLD cfg" "key = remaining_key c"
    by (auto simp: decision_def split: if_splits)
  with c remaining_key_nth [OF c]
  have "\<exists>c. security_check src s = Inr (c, g') \<and> \<not> qber c > SECURITY_THRESHOLD cfg \<and>
      key = map (\<lambda>j. alice_sifted_key s ! j)
              (filter (\<lambda>j. j \<notin> set (check_indices c)) [0..<length (alice_sifted_key s)])"
    by auto
  moreover note example_run
  moreover have "map (\<lambda>j. bob_sifted_key (sifted small_config scripted True 8 example_script) ! j)
      [0, 1, 2, 3] = [0, 1, 1, 0]"
    by (simp add: example_sifted)
  ultimately show ?thesis
    using sifted_keys_nth(1) [OF assms(3)] by simp
qed

theorem returned_key_is_alices_witness:
  "[1, 1, 1, 0 :: int] =
     map (\<lambda>j. [1, 1, 1, 0, 1] ! j)
       (filter (\<lambda>j. j \<notin> set [4]) [0..<length [1, 1, 1, 0, 1 :: int]]) \<and>
   [1, 1, 1, 0, 1 :: int] =
     map (\<lambda>i. [1, 0, 1, 1, 0, 0, 1, 0] ! i)
       (filter (\<lambda>i. [0, 1, 0, 1, 0, 1, 0, 1 :: int] ! i = [0, 0, 0, 1, 1, 1, 0, 0] ! i) [0..<8])"
proof -
  note t = returned_key_is_alices [OF small_config_photons(1)
      small_config_photons(2) [symmetric] refl example_run]
  from t [THEN conjunct1] obtain c where
    ck: "security_check scripted (sifted small_config scripted True 8 example_script) =
        Inr (c, ([], [], [])) \<and>
      \<not> qber c > SECURITY_THRESHOLD small_config \<and>
      [1, 1, 1, 0] = map (\<lambda>j. alice_sifted_key (sifted small_config scripted True 8
          example_script) ! j)
        (filter (\<lambda>j. j \<notin> set (check_indices c))
          [0..<length (alice_sifted_key (sifted small_config scripted True 8 example_script))])"
    ..
  from ck have c: "security_check scripted (sifted small_config scripted True 8 example_script) =
        Inr (c, ([], [], []))"
    and k: "[1, 1, 1, 0] = map (\<lambda>j. alice_sifted_key (sifted small_config scripted True 8
          example_script) ! j)
        (filter (\<lambda>j. j \<notin> set (check_indices c))
          [0..<length (alice_sifted_key (sifted small_config scripted True 8 example_script))])"
    by simp_all
  note a = t [THEN conjunct2, THEN conjunct1]
  from c have "check_indices c = [4]"
    by (auto simp: example_check)
  with k have "[1, 1, 1, 0 :: int] =
     map (\<lambda>j. [1, 1, 1, 0, 1] ! j)
       (filter (\<lambda>j. j \<notin> set [4]) [0..<length [1, 1, 1, 0, 1 :: int]])"
    unfolding example_sifted by simp
  moreover from a have "[1, 1, 1, 0, 1 :: int] =
     map (\<lambda>i. [1, 0, 1, 1, 0, 0, 1, 0] ! i)
       (filter (\<lambda>i. [0, 1, 0, 1, 0, 1, 0, 1 :: int] ! i = [0, 0, 0, 1, 1, 1, 0, 0] ! i) [0..<8])"
    unfolding example_sifted by simp
  ultimately show ?thesis
    by (rule conjI)
qed

subsection \<open>Configuration values\<close>

lemma sifted_zero:
  "alice_sifted_key (sifted cfg src e 0 g) = []" "rng (sifted cfg src e 0 g) = g"
proof -
  have "length (alice_sifted_key (sifted cfg src e 0 g)) \<le> 0"
    by (rule length_sifted_le)
  then show "alice_sifted_key (sifted cfg src e 0 g) = []" by simp
  show "rng (sifted cfg src e 0 g) = g"
    by (simp add: sifted_keeps measured_def measurement_def transmitted_def transmission_def
        prepared_def preparation_def start_def)
qed

lemma example_sifted_always_intercept:
  "sifted (small_config\<lparr>EAVESDROP_PROB := 3 / 2\<rparr>) scripted True 8 example_script =
   \<lparr>alice_bits = [1, 0, 1, 1, 0, 0, 1, 0],
    alice_bases = [0, 1, 0, 1, 0, 1, 0, 1],
    bob_bases = [0, 0, 0, 1, 1, 1, 0, 0],
    eve_bases = Some [1, 1, 0, 1, 0, 1, 1, 0],
    intercept_mask = Some [True, True, True, True, True, True, True, True],
    received_bits = [0, 0, 1, 1, 0, 0, 0, 1],
    bob_bits = [0, 1, 1, 1, 0, 0, 0, 1],
    alice_sifted_key = [1, 1, 1, 0, 1],
    bob_sifted_key = [0, 1, 1, 0, 0],
    rng = ([], [], [[4]])\<rparr>"
  by code_simp

lemma example_check_always_intercept:
  "security_check scripted
     (sifted (small_config\<lparr>EAVESDROP_PROB := 3 / 2\<rparr>) scripted True 8 example_script) =
   Inr (\<lparr>CHECK_SIZE = 1, check_indices = [4], errors = 1, qber = 1,
         remaining_key = [1, 1, 1, 0]\<rparr>, ([], [], []))"
  unfolding example_sifted_always_intercept by code_simp

text \<open>
  C7, as stated, fails: nothing in the module validates the three constants. With
  \<open>NUM_PHOTONS = 0\<close> the run is the empty-sift rejection; with
  \<open>EAVESDROP_PROB = 3/2\<close> every photon is intercepted and the run ends in the
  intrusion outcome; with \<open>SECURITY_THRESHOLD = 2\<close> the same run is accepted although
  \<open>qber = 1\<close>. None of them is a configuration failure.
\<close>

theorem configuration_failure_counterexample:
  "run_qkd_protocol (small_config\<lparr>NUM_PHOTONS := 0\<rparr>) scripted True example_script =
     Inr ((None, [Lit ''Key failure due to sifting.'']), example_script) \<and>
   run_qkd_protocol (small_config\<lparr>EAVESDROP_PROB := 3 / 2\<rparr>) scripted True example_script =
     Inr ((None, intrusion_text 1), ([], [], [])) \<and>
   run_qkd_protocol (small_config\<lparr>EAVESDROP_PROB := 3 / 2, SECURITY_THRESHOLD := 2\<rparr>)
       scripted True example_script =
     Inr ((Some [1, 1, 1, 0], secure_text 1 [1, 1, 1, 0]), ([], [], []))"
proof -
  have z: "run_qkd_protocol (small_config\<lparr>NUM_PHOTONS := 0\<rparr>) scripted True example_script =
      Inr ((None, [Lit ''Key failure due to sifting.'']), example_script)"
    by (simp add: run_qkd_protocol_def sifted_zero sifting_failure_def)
  let ?c = "small_config\<lparr>EAVESDROP_PROB := 3 / 2\<rparr>"
  let ?d = "small_config\<lparr>EAVESDROP_PROB := 3 / 2, SECURITY_THRESHOLD := 2\<rparr>"
  have n: "0 \<le> NUM_PHOTONS ?c" "nat (NUM_PHOTONS ?c) = 8"
    "0 \<le> NUM_PHOTONS ?d" "nat (NUM_PHOTONS ?d) = 8"
    by (simp_all add: small_config_def)
  have sd: "sifted ?d scripted True 8 example_script = sifted ?c scripted True 8 example_script"
    by (simp add: sifted_def measured_def transmitted_def transmission_def)
  have a: "alice_sifted_key (sifted ?c scripted True (nat (NUM_PHOTONS ?c)) example_script) \<noteq> []"
    by (simp add: small_config_photons example_sifted_always_intercept)
  have b: "security_check scripted (sifted ?c scripted True (nat (NUM_PHOTONS ?c)) example_script) =
      Inr (\<lparr>CHECK_SIZE = 1, check_indices = [4], errors = 1, qber = 1,
         remaining_key = [1, 1, 1, 0]\<rparr>, ([], [], []))"
    by (simp add: small_config_photons example_check_always_intercept)
  have a': "alice_sifted_key (sifted ?d scripted True (nat (NUM_PHOTONS ?d)) example_script) \<noteq> []"
    by (simp add: small_config_photons sd example_sifted_always_intercept)
  have b': "security_check scripted (sifted ?d scripted True (nat (NUM_PHOTONS ?d)) example_script) =
      Inr (\<lparr>CHECK_SIZE = 1, check_indices = [4], errors = 1, qber = 1,
         remaining_key = [1, 1, 1, 0]\<rparr>, ([], [], []))"
    by (simp add: small_config_photons sd example_check_always_intercept)
  have c: "run_qkd_protocol ?c scripted True example_script = Inr ((None, intrusion_text 1), ([], [], []))"
    using run_at_decision [OF n(1) refl a b]
    by (simp add: decision_def small_config_def)
  have d: "run_qkd_protocol ?d scripted True example_script =
      Inr ((Some [1, 1, 1, 0], secure_text 1 [1, 1, 1, 0]), ([], [], []))"
    using run_at_decision [OF n(3) refl a' b']
    by (simp add: decision_def small_config_def)
  from z c d show ?thesis by simp
qed

lemma measured_rng:
  "rng (measured cfg src e N g) =
   ((\<lambda>s. snd (randint src s)) ^^
      length (filter (\<lambda>i. \<not> map (\<lambda>(a, b). a = b)
         (zip (alice_bases (prepared src N g)) (bob_bases (prepared src N g))) ! i) [0..<N]))
     (rng (transmitted cfg src e N g))"
proof -
  have "rng (measured cfg src e N g) =
      snd (measure_loop src
        (map (\<lambda>(a, b). a = b) (zip (alice_bases (prepared src N g)) (bob_bases (prepared src N g))))
        (received_bits (transmitted cfg src e N g)) [0..<N] (replicate N 0)
        (rng (transmitted cfg src e N g)))"
    by (simp add: measured_def measurement_def Let_def transmitted_keeps split: prod.splits)
  then show ?thesis
    by (simp only: measure_loop_rng)
qed

lemma transmitted_rng_config:
  "rng (transmitted (cfg\<lparr>EAVESDROP_PROB := p, SECURITY_THRESHOLD := t\<rparr>) src e N g) =
   rng (transmitted cfg src e N g)"
  by (simp add: transmitted_def transmission_def Let_def split: prod.splits)

lemma sifted_config:
  "alice_sifted_key (sifted (cfg\<lparr>EAVESDROP_PROB := p, SECURITY_THRESHOLD := t\<rparr>) src e N g) =
     alice_sifted_key (sifted cfg src e N g)"
  "rng (sifted (cfg\<lparr>EAVESDROP_PROB := p, SECURITY_THRESHOLD := t\<rparr>) src e N g) =
     rng (sifted cfg src e N g)"
  by (simp_all add: sifted_keys sifted_keeps measured_rng transmitted_rng_config)

lemma security_check_raises:
  assumes "length (bob_sifted_key s) = length (alice_sifted_key s)"
  shows "security_check src s = Inl err \<longleftrightarrow>
         err = IndexError \<and>
         \<not> (\<forall>i \<in> set (fst (choice src (length (alice_sifted_key s))
                (length (alice_sifted_key s) div 4) (rng s))). i < length (alice_sifted_key s))"
  using assms
  by (auto simp: security_check_def index_select_def Let_def split: prod.splits)

lemma run_raises:
  "run_qkd_protocol cfg src e g = Inl err \<longleftrightarrow>
   (NUM_PHOTONS cfg < 0 \<and> err = ValueError) \<or>
   (0 \<le> NUM_PHOTONS cfg \<and>
    alice_sifted_key (sifted cfg src e (nat (NUM_PHOTONS cfg)) g) \<noteq> [] \<and>
    err = IndexError \<and>
    \<not> (\<forall>i \<in> set (fst (choice src
           (length (alice_sifted_key (sifted cfg src e (nat (NUM_PHOTONS cfg)) g)))
           (length (alice_sifted_key (sifted cfg src e (nat (NUM_PHOTONS cfg)) g)) div 4)
           (rng (sifted cfg src e (nat (NUM_PHOTONS cfg)) g)))).
         i < length (alice_sifted_key (sifted cfg src e (nat (NUM_PHOTONS cfg)) g))))"
proof (cases "NUM_PHOTONS cfg < 0")
  case True
  then show ?thesis
    by (auto simp: run_qkd_protocol_def)
next
  case False
  let ?s = "sifted cfg src e (nat (NUM_PHOTONS cfg)) g"
  have len: "length (bob_sifted_key ?s) = length (alice_sifted_key ?s)"
    by (rule length_sifted_keys [symmetric])
  have "run_qkd_protocol cfg src e g = Inl err \<longleftrightarrow>
      alice_sifted_key ?s \<noteq> [] \<and> security_check src ?s = Inl err"
    using False by (auto simp: run_qkd_protocol_def Let_def split: sum.splits)
  with False show ?thesis
    by (simp add: security_check_raises [OF len] conj_ac)
qed

text \<open>
  C7, amended: none of the three constants is validated. A negative \<open>NUM_PHOTONS\<close>
  does fail, with the ValueError of the first array draw, but \<open>NUM_PHOTONS = 0\<close> is not
  a failure: the run is the empty-sift rejection and draws nothing.
  \<open>EAVESDROP_PROB\<close> and \<open>SECURITY_THRESHOLD\<close> are neither rejected nor clamped: whether
  a run raises, and what it raises, is the same for any two values of them, and they
  are used as they are, in \<open>u < EAVESDROP_PROB\<close> for the interception mask and in
  \<open>qber > SECURITY_THRESHOLD\<close> for the decision.
\<close>

theorem configuration_not_validated:
  "(NUM_PHOTONS cfg < 0 \<longrightarrow> run_qkd_protocol cfg src e g = Inl ValueError) \<and>
   (NUM_PHOTONS cfg = 0 \<longrightarrow>
      run_qkd_protocol cfg src e g = Inr ((None, [Lit ''Key failure due to sifting.'']), g)) \<and>
   (\<forall>p t err.
      run_qkd_protocol (cfg\<lparr>EAVESDROP_PROB := p, SECURITY_THRESHOLD := t\<rparr>) src e g = Inl err
        \<longleftrightarrow> run_qkd_protocol cfg src e g = Inl err) \<and>
   (\<forall>s N. intercept_mask (transmission cfg src True N s) =
      Some (map (\<lambda>u. u < EAVESDROP_PROB cfg)
        (fst (draws (rand src) N (snd (draws (randint src) N (rng s))))))) \<and>
   (\<forall>c. fst (decision cfg c) = None \<longleftrightarrow> qber c > SECURITY_THRESHOLD cfg)"
proof -
  have neg: "run_qkd_protocol cfg src e g = Inl ValueError" if "NUM_PHOTONS cfg < 0"
    using that by (simp add: run_qkd_protocol_def)
  have zero: "run_qkd_protocol cfg src e g = Inr ((None, [Lit ''Key failure due to sifting.'']), g)"
    if "NUM_PHOTONS cfg = 0"
    using that by (simp add: run_qkd_protocol_def sifted_zero sifting_failure_def)
  have same: "run_qkd_protocol (cfg\<lparr>EAVESDROP_PROB := p, SECURITY_THRESHOLD := t\<rparr>) src e g = Inl err
      \<longleftrightarrow> run_qkd_protocol cfg src e g = Inl err" for p t err
    by (simp add: run_raises sifted_config)
  have mask: "intercept_mask (transmission cfg src True N s) =
      Some (map (\<lambda>u. u < EAVESDROP_PROB cfg)
        (fst (draws (rand src) N (snd (draws (randint src) N (rng s))))))" for s N
    by (simp add: transmission_def Let_def split: prod.splits)
  have dec: "fst (decision cfg c) = None \<longleftrightarrow> qber c > SECURITY_THRESHOLD cfg" for c
    by (simp add: decision_def)
  from neg zero same mask dec show ?thesis
    by blast
qed

theorem configuration_not_validated_witness:
  "run_qkd_protocol (small_config\<lparr>NUM_PHOTONS := - 1\<rparr>) scripted True example_script =
     Inl ValueError \<and>
   run_qkd_protocol (small_config\<lparr>NUM_PHOTONS := 0\<rparr>) scripted True example_script =
     Inr ((None, [Lit ''Key failure due to sifting.'']), example_script) \<and>
   run_qkd_protocol (small_config\<lparr>EAVESDROP_PROB := 3 / 2, SECURITY_THRESHOLD := 2\<rparr>)
     scripted True example_script \<noteq> Inl ValueError \<and>
   run_qkd_protocol (small_config\<lparr>EAVESDROP_PROB := 3 / 2, SECURITY_THRESHOLD := 2\<rparr>)
     scripted True example_script \<noteq> Inl IndexError"
proof -
  have n: "NUM_PHOTONS (small_config\<lparr>NUM_PHOTONS := - 1\<rparr>) < 0"
    "NUM_PHOTONS (small_config\<lparr>NUM_PHOTONS := 0\<rparr>) = 0"
    by (simp_all add: small_config_def)
  note a = configuration_not_validated [of "small_config\<lparr>NUM_PHOTONS := - 1\<rparr>" scripted True
      example_script]
  note b = configuration_not_validated [of "small_config\<lparr>NUM_PHOTONS := 0\<rparr>" scripted True
      example_script]
  note c = configuration_not_validated [of small_config scripted True example_script]
  from a n(1) have 1: "run_qkd_protocol (small_config\<lparr>NUM_PHOTONS := - 1\<rparr>) scripted True
      example_script = Inl ValueError"
    by (simp only:)
  from b n(2) have 2: "run_qkd_protocol (small_config\<lparr>NUM_PHOTONS := 0\<rparr>) scripted True
      example_script = Inr ((None, [Lit ''Key failure due to sifting.'']), example_script)"
    by (simp only:)
  from c have 3: "run_qkd_protocol (small_config\<lparr>EAVESDROP_PROB := 3 / 2, SECURITY_THRESHOLD := 2\<rparr>)
      scripted True example_script = Inl err \<longleftrightarrow>
      run_qkd_protocol small_config scripted True example_script = Inl err" for err
    by blast
  from 1 2 3 [of ValueError] 3 [of IndexError] show ?thesis
    by (simp add: example_run)
qed

subsection \<open>The draws of a run\<close>




lemma with_log_fields [simp]:
  "alice_bits (with_log l s) = alice_bits s"
  "alice_bases (with_log l s) = alice_bases s"
  "bob_bases (with_log l s) = bob_bases s"
  "eve_bases (with_log l s) = eve_bases s"
  "intercept_mask (with_log l s) = intercept_mask s"
  "received_bits (with_log l s) = received_bits s"
  "bob_bits (with_log l s) = bob_bits s"
  "alice_sifted_key (with_log l s) = alice_sifted_key s"
  "bob_sifted_key (with_log l s) = bob_sifted_key s"
  "rng (with_log l s) = (rng s, l)"
  by (simp_all add: with_log_def)


















end
